theory Spec2Isabelle
  imports Main "HOL-Library.Multiset" "HOL-Library.Word"
begin

unbundle bit_operations_syntax

section \<open>Features\<close>

text \<open>
  The feature classes come from \<^verbatim>\<open>capa.features.common\<close> and \<^verbatim>\<open>capa.features.file\<close>.
  A feature is a tagged value; the extractor pairs it with an address or a metadata token.
  The constants \<^verbatim>\<open>ARCH_I386\<close>, \<^verbatim>\<open>ARCH_AMD64\<close>, \<^verbatim>\<open>ARCH_ANY\<close>, \<^verbatim>\<open>OS_ANY\<close> and
  \<^verbatim>\<open>FORMAT_DOTNET\<close> are imported by the file, which only passes them on: they are kept
  as the members of three enumerations.
\<close>

type_synonym byte = "8 word"

datatype arch_tag = ARCH_I386 | ARCH_AMD64 | ARCH_ANY

datatype os_tag = OS_ANY

datatype format_tag = FORMAT_DOTNET

datatype feature =
    Import string
  | FunctionName string
  | Namespace string
  | Class string
  | Characteristic string
  | Arch arch_tag
  | OS os_tag
  | Format format_tag
  | String string

datatype error = NotImplementedError string | UnicodeDecodeError

section \<open>The parsed binary\<close>

text \<open>
  What \<^verbatim>\<open>dnfile.dnPE\<close> exposes and the file reads: the CLR flags, the kind of the PE
  optional header, the metadata tables by name (a table may be absent), the metadata
  version string as bytes, and the raw bytes of the file. The record stands for a binary
  whose CLR header was parsed (\<^verbatim>\<open>pe.net\<close> is present).
\<close>

record clr_flags =
  CLR_32BITREQUIRED :: bool
  CLR_ILONLY :: bool

record row =
  TypeNamespace :: string
  TypeName :: string

record md_table =
  number :: int
  rows :: "row list"

record ClrData =
  Flags :: clr_flags
  mdtables :: "string \<rightharpoonup> md_table"
  metadata_Version :: "byte list"

record dnPE =
  net :: ClrData
  PE_TYPE :: int
  data :: "byte list"

text \<open>The two values of the optional header's magic field, as \<^verbatim>\<open>pefile\<close> names them.\<close>

definition OPTIONAL_HEADER_MAGIC_PE :: int where
  "OPTIONAL_HEADER_MAGIC_PE = 0x10b"

definition OPTIONAL_HEADER_MAGIC_PE_PLUS :: int where
  "OPTIONAL_HEADER_MAGIC_PE_PLUS = 0x20b"

section \<open>Helpers of \<^verbatim>\<open>capa.features.extractors.dnfile.helpers\<close>\<close>

text \<open>
  The references that the resolvers return: \<^verbatim>\<open>DnMethod\<close> for a managed method and
  \<^verbatim>\<open>DnUnmanagedMethod\<close> for an unmanaged import. Both have a token and a method name.
\<close>

record DnRef =
  token :: int
  methodname :: string

record DnMethod = DnRef +
  namespace :: string
  classname :: string

record DnUnmanagedMethod = DnRef +
  modulename :: string

text \<open>
  Modelled from the spec: \<^verbatim>\<open>calculate_dotnet_token_value\<close> is not part of the file.
  The token of a row is \<^verbatim>\<open>(table_id << 24) | row_index\<close>, on Python's unbounded integers.
\<close>

definition calculate_dotnet_token_value :: "int \<Rightarrow> int \<Rightarrow> int" where
  "calculate_dotnet_token_value table rid = push_bit 24 table OR rid"

text \<open>
  Modelled from the spec: \<^verbatim>\<open>iter_dotnet_table\<close> is not part of the file. It gives the rows
  of the named table in the table's own order, and no row when the binary has no such table.
\<close>

definition iter_dotnet_table :: "dnPE \<Rightarrow> string \<Rightarrow> row list" where
  "iter_dotnet_table pe name =
     (case mdtables (net pe) name of None \<Rightarrow> [] | Some t \<Rightarrow> rows t)"

text \<open>
  Modelled from the spec: \<^verbatim>\<open>is_dotnet_mixed_mode\<close> is not part of the file. It is true
  iff the IL-only flag is absent.
\<close>

definition is_dotnet_mixed_mode :: "dnPE \<Rightarrow> bool" where
  "is_dotnet_mixed_mode pe = (\<not> CLR_ILONLY (Flags (net pe)))"

text \<open>
  Modelled from the spec: \<^verbatim>\<open>DnClass.format_name\<close> is not part of the file. The name of a
  type is its own name when the namespace is empty, and \<^verbatim>\<open>namespace.name\<close> otherwise.
\<close>

definition DnClass_format_name :: "string \<Rightarrow> string \<Rightarrow> string" where
  "DnClass_format_name ns name = (if ns = [] then name else ns @ ''.'' @ name)"

text \<open>
  Modelled from the spec: \<^verbatim>\<open>str(method)\<close> of a \<^verbatim>\<open>DnMethod\<close> is not part of the file. The
  name of a method is the name of its type, then \<^verbatim>\<open>::\<close>, then the method's own name.
\<close>

definition DnMethod_str :: "DnMethod \<Rightarrow> string" where
  "DnMethod_str m = DnClass_format_name (namespace m) (classname m) @ ''::'' @ methodname m"

section \<open>What the file takes from outside\<close>

text \<open>
  The resolvers of imports and methods, the generator of the name variants of an unmanaged
  symbol and the scanner of printable strings are functions of other modules, of which
  the file uses the results only: they are parameters here. So is the order in which
  Python iterates over a set, which the language leaves open: a set is kept as the list
  of its elements without repetition, and iterating over it goes through \<open>set_iter_order\<close>.
\<close>

record env =
  get_dotnet_managed_imports :: "dnPE \<Rightarrow> DnMethod list"
  get_dotnet_managed_methods :: "dnPE \<Rightarrow> DnMethod list"
  get_dotnet_unmanaged_imports :: "dnPE \<Rightarrow> DnUnmanagedMethod list"
  generate_symbols :: "string \<Rightarrow> string \<Rightarrow> string list"
  common_extract_file_strings :: "byte list \<Rightarrow> (feature \<times> int) list"
  set_iter_order :: "string list \<Rightarrow> string list"

definition valid_iter_order :: "(string list \<Rightarrow> string list) \<Rightarrow> bool" where
  "valid_iter_order ord \<longleftrightarrow> (\<forall>s. mset (ord s) = mset s)"

definition set_add :: "'a \<Rightarrow> 'a list \<Rightarrow> 'a list" where
  "set_add x s = (if x \<in> set s then s else s @ [x])"

definition set_discard :: "'a \<Rightarrow> 'a list \<Rightarrow> 'a list" where
  "set_discard x s = filter (\<lambda>y. y \<noteq> x) s"

section \<open>The extraction rules\<close>

definition extract_file_format :: "(feature \<times> int) list" where
  "extract_file_format = [(Format FORMAT_DOTNET, 0x0)]"

definition extract_file_import_names :: "env \<Rightarrow> dnPE \<Rightarrow> (feature \<times> int) list" where
  "extract_file_import_names e pe =
     map (\<lambda>method. (Import (DnMethod_str method), token method))
       (get_dotnet_managed_imports e pe)
     @ concat (map (\<lambda>imp.
         map (\<lambda>name. (Import name, token imp))
           (generate_symbols e (modulename imp) (methodname imp)))
       (get_dotnet_unmanaged_imports e pe))"

definition extract_file_function_names :: "env \<Rightarrow> dnPE \<Rightarrow> (feature \<times> int) list" where
  "extract_file_function_names e pe =
     map (\<lambda>method. (FunctionName (DnMethod_str method), token method))
       (get_dotnet_managed_methods e pe)"

definition extract_file_namespace_features :: "env \<Rightarrow> dnPE \<Rightarrow> (feature \<times> int) list" where
  "extract_file_namespace_features e pe =
     (let namespaces = [];
          namespaces = fold (\<lambda>row. set_add (TypeNamespace row))
                         (iter_dotnet_table pe ''TypeDef'') namespaces;
          namespaces = fold (\<lambda>row. set_add (TypeNamespace row))
                         (iter_dotnet_table pe ''TypeRef'') namespaces;
          namespaces = set_discard '''' namespaces
      in map (\<lambda>namespace. (Namespace namespace, 0x0)) (set_iter_order e namespaces))"

text \<open>
  The number of a table is read in the body of the loop over its rows, so only when the
  table has a row, and then the table is present.
\<close>

definition extract_file_class_features :: "dnPE \<Rightarrow> (feature \<times> int) list" where
  "extract_file_class_features pe =
     map (\<lambda>(rid, row).
            (Class (DnClass_format_name (TypeNamespace row) (TypeName row)),
             calculate_dotnet_token_value
               (number (the (mdtables (net pe) ''TypeDef''))) (int rid + 1)))
       (enumerate 0 (iter_dotnet_table pe ''TypeDef''))
     @ map (\<lambda>(rid, row).
            (Class (DnClass_format_name (TypeNamespace row) (TypeName row)),
             calculate_dotnet_token_value
               (number (the (mdtables (net pe) ''TypeRef''))) (int rid + 1)))
       (enumerate 0 (iter_dotnet_table pe ''TypeRef''))"

definition extract_file_os :: "(feature \<times> int) list" where
  "extract_file_os = [(OS OS_ANY, 0x0)]"

definition extract_file_arch :: "dnPE \<Rightarrow> (feature \<times> int) list" where
  "extract_file_arch pe =
     (if CLR_32BITREQUIRED (Flags (net pe)) \<and> PE_TYPE pe = OPTIONAL_HEADER_MAGIC_PE
      then [(Arch ARCH_I386, 0x0)]
      else if \<not> CLR_32BITREQUIRED (Flags (net pe))
              \<and> PE_TYPE pe = OPTIONAL_HEADER_MAGIC_PE_PLUS
      then [(Arch ARCH_AMD64, 0x0)]
      else [(Arch ARCH_ANY, 0x0)])"

definition extract_file_strings :: "env \<Rightarrow> dnPE \<Rightarrow> (feature \<times> int) list" where
  "extract_file_strings e pe = common_extract_file_strings e (data pe)"

definition extract_file_mixed_mode_characteristic_features :: "dnPE \<Rightarrow> (feature \<times> int) list" where
  "extract_file_mixed_mode_characteristic_features pe =
     (if is_dotnet_mixed_mode pe then [(Characteristic ''mixed mode'', 0x0)] else [])"

text \<open>
  Every handler is called as \<^verbatim>\<open>handler(pe=pe)\<close> and takes what it needs from the keyword
  arguments; the results are yielded in the order of the tuple.
\<close>

definition FILE_HANDLERS :: "(env \<Rightarrow> dnPE \<Rightarrow> (feature \<times> int) list) list" where
  "FILE_HANDLERS =
     [extract_file_import_names,
      extract_file_function_names,
      extract_file_strings,
      (\<lambda>e pe. extract_file_format),
      (\<lambda>e pe. extract_file_mixed_mode_characteristic_features pe),
      extract_file_namespace_features,
      (\<lambda>e pe. extract_file_class_features pe)]"

definition extract_file_features :: "env \<Rightarrow> dnPE \<Rightarrow> (feature \<times> int) list" where
  "extract_file_features e pe = concat (map (\<lambda>file_handler. file_handler e pe) FILE_HANDLERS)"

definition GLOBAL_HANDLERS :: "(dnPE \<Rightarrow> (feature \<times> int) list) list" where
  "GLOBAL_HANDLERS = [(\<lambda>pe. extract_file_os), extract_file_arch]"

definition extract_global_features :: "dnPE \<Rightarrow> (feature \<times> int) list" where
  "extract_global_features pe = concat (map (\<lambda>handler. handler pe) GLOBAL_HANDLERS)"

section \<open>Calls in a running interpreter\<close>













section \<open>Decoding the metadata version string\<close>

text \<open>
  \<^verbatim>\<open>bytes.rstrip(b"\x00")\<close> removes the zero bytes at the end. \<^verbatim>\<open>bytes.decode("utf-8")\<close>
  decodes with the error handler \<^verbatim>\<open>strict\<close>: the result is the list of the code points
  when the bytes are well-formed UTF-8 (no overlong form, no surrogate, nothing above
  U+10FFFF, no truncated sequence), and \<^verbatim>\<open>UnicodeDecodeError\<close> is raised otherwise.
\<close>

definition rstrip_nul :: "byte list \<Rightarrow> byte list" where
  "rstrip_nul bs = rev (dropWhile (\<lambda>b. b = 0) (rev bs))"

text \<open>
  For a leading byte: the number of continuation bytes, the range allowed for the first
  of them, and the payload bits of the leading byte.
\<close>

definition utf8_lead :: "byte \<Rightarrow> (nat \<times> byte \<times> byte \<times> nat) option" where
  "utf8_lead b =
     (if 0xC2 \<le> b \<and> b \<le> 0xDF then Some (1, 0x80, 0xBF, unat (b AND 0x1F))
      else if b = 0xE0 then Some (2, 0xA0, 0xBF, unat (b AND 0x0F))
      else if b = 0xED then Some (2, 0x80, 0x9F, unat (b AND 0x0F))
      else if 0xE1 \<le> b \<and> b \<le> 0xEF then Some (2, 0x80, 0xBF, unat (b AND 0x0F))
      else if b = 0xF0 then Some (3, 0x90, 0xBF, unat (b AND 0x07))
      else if b = 0xF4 then Some (3, 0x80, 0x8F, unat (b AND 0x07))
      else if 0xF1 \<le> b \<and> b \<le> 0xF3 then Some (3, 0x80, 0xBF, unat (b AND 0x07))
      else None)"

definition utf8_cons :: "nat \<Rightarrow> error + nat list \<Rightarrow> error + nat list" where
  "utf8_cons c r = (case r of Inl err \<Rightarrow> Inl err | Inr cs \<Rightarrow> Inr (c # cs))"

function decode_utf8 :: "byte list \<Rightarrow> error + nat list" where
  "decode_utf8 [] = Inr []"
| "decode_utf8 (b # bs) =
     (if b < 0x80 then utf8_cons (unat b) (decode_utf8 bs)
      else case utf8_lead b of
        None \<Rightarrow> Inl UnicodeDecodeError
      | Some (n, lo, hi, v) \<Rightarrow>
          if length bs < n then Inl UnicodeDecodeError
          else if lo \<le> hd bs \<and> hd bs \<le> hi
                  \<and> (\<forall>c \<in> set (take n bs). 0x80 \<le> c \<and> c \<le> 0xBF)
          then utf8_cons (foldl (\<lambda>a c. a * 64 + unat (c AND 0x3F)) v (take n bs))
                 (decode_utf8 (drop n bs))
          else Inl UnicodeDecodeError)"
  by pat_completeness auto
termination
  by (relation "measure length") auto

text \<open>
  What the decoder is measured against: the UTF-8 encoding of a string, as
  \<^verbatim>\<open>str.encode("utf-8")\<close> gives it. A string is a list of Unicode scalar values (the code
  points up to U+10FFFF without the surrogates), and each is encoded in one to four bytes.
\<close>

definition is_scalar_value :: "nat \<Rightarrow> bool" where
  "is_scalar_value c \<longleftrightarrow> c < 0xD800 \<or> (0xE000 \<le> c \<and> c < 0x110000)"

definition encode_char :: "nat \<Rightarrow> byte list" where
  "encode_char c =
     (if c < 0x80 then [of_nat c]
      else if c < 0x800 then [of_nat (0xC0 + c div 64), of_nat (0x80 + c mod 64)]
      else if c < 0x10000 then
        [of_nat (0xE0 + c div 4096), of_nat (0x80 + c div 64 mod 64), of_nat (0x80 + c mod 64)]
      else
        [of_nat (0xF0 + c div 262144), of_nat (0x80 + c div 4096 mod 64),
         of_nat (0x80 + c div 64 mod 64), of_nat (0x80 + c mod 64)])"

definition encode_utf8 :: "nat list \<Rightarrow> byte list" where
  "encode_utf8 s = concat (map encode_char s)"

section \<open>The extractor\<close>

record DotnetFileFeatureExtractor =
  path :: string
  pe :: dnPE

definition only_file_features :: string where
  "only_file_features = ''DotnetFileFeatureExtractor can only be used to extract file features''"

definition get_base_address :: "DotnetFileFeatureExtractor \<Rightarrow> int" where
  "get_base_address self = 0x0"

definition is_mixed_mode :: "DotnetFileFeatureExtractor \<Rightarrow> bool" where
  "is_mixed_mode self = is_dotnet_mixed_mode (pe self)"

definition get_meta_version_string :: "DotnetFileFeatureExtractor \<Rightarrow> error + nat list" where
  "get_meta_version_string self = decode_utf8 (rstrip_nul (metadata_Version (net (pe self))))"

text \<open>
  The operations below the level of the file raise before they look at an argument;
  the handles of functions, basic blocks and instructions are of any type.
\<close>

definition get_functions :: "DotnetFileFeatureExtractor \<Rightarrow> error + 'r" where
  "get_functions self = Inl (NotImplementedError only_file_features)"

definition extract_function_features :: "DotnetFileFeatureExtractor \<Rightarrow> 'f \<Rightarrow> error + 'r" where
  "extract_function_features self f = Inl (NotImplementedError only_file_features)"

definition get_basic_blocks :: "DotnetFileFeatureExtractor \<Rightarrow> 'f \<Rightarrow> error + 'r" where
  "get_basic_blocks self f = Inl (NotImplementedError only_file_features)"

definition extract_basic_block_features ::
  "DotnetFileFeatureExtractor \<Rightarrow> 'f \<Rightarrow> 'bb \<Rightarrow> error + 'r" where
  "extract_basic_block_features self f bb = Inl (NotImplementedError only_file_features)"

definition get_instructions :: "DotnetFileFeatureExtractor \<Rightarrow> 'f \<Rightarrow> 'bb \<Rightarrow> error + 'r" where
  "get_instructions self f bb = Inl (NotImplementedError only_file_features)"

definition extract_insn_features ::
  "DotnetFileFeatureExtractor \<Rightarrow> 'f \<Rightarrow> 'bb \<Rightarrow> 'i \<Rightarrow> error + 'r" where
  "extract_insn_features self f bb insn = Inl (NotImplementedError only_file_features)"

definition is_library_function :: "DotnetFileFeatureExtractor \<Rightarrow> int \<Rightarrow> error + 'r" where
  "is_library_function self va = Inl (NotImplementedError only_file_features)"

definition get_function_name :: "DotnetFileFeatureExtractor \<Rightarrow> int \<Rightarrow> error + 'r" where
  "get_function_name self va = Inl (NotImplementedError only_file_features)"

section \<open>A sample binary\<close>

text \<open>
  A small assembly to run the rules on: the type \<^verbatim>\<open>System.Object\<close> is both defined and
  referenced, one type has no namespace, one method is imported from another assembly and
  one from \<^verbatim>\<open>kernel32\<close>. The set is iterated in the reverse of the order of insertion.
\<close>

definition sample_types :: "string \<rightharpoonup> md_table" where
  "sample_types =
     [''TypeRef'' \<mapsto> \<lparr>number = 1, rows =
         [\<lparr>TypeNamespace = ''System'', TypeName = ''Object''\<rparr>,
          \<lparr>TypeNamespace = ''System.IO'', TypeName = ''File''\<rparr>]\<rparr>,
      ''TypeDef'' \<mapsto> \<lparr>number = 2, rows =
         [\<lparr>TypeNamespace = '''', TypeName = ''Program''\<rparr>,
          \<lparr>TypeNamespace = ''System'', TypeName = ''Object''\<rparr>]\<rparr>]"

definition sample_pe :: dnPE where
  "sample_pe =
     \<lparr>net = \<lparr>Flags = \<lparr>CLR_32BITREQUIRED = True, CLR_ILONLY = True\<rparr>,
             mdtables = sample_types,
             metadata_Version = [0x76, 0x34, 0x2E, 0x30, 0x00, 0x00]\<rparr>,
      PE_TYPE = 0x10b,
      data = []\<rparr>"

definition sample_env :: env where
  "sample_env =
     \<lparr>get_dotnet_managed_imports = (\<lambda>pe.
         [\<lparr>token = 0x0A000001, methodname = ''OpenRead'',
           namespace = ''System.IO'', classname = ''File''\<rparr>]),
      get_dotnet_managed_methods = (\<lambda>pe.
         [\<lparr>token = 0x06000001, methodname = ''Main'',
           namespace = '''', classname = ''Program''\<rparr>]),
      get_dotnet_unmanaged_imports = (\<lambda>pe.
         [\<lparr>token = 0x06000002, methodname = ''CreateFile'', modulename = ''kernel32''\<rparr>]),
      generate_symbols = (\<lambda>dll symbol. [symbol, symbol @ ''A'', symbol @ ''W'']),
      common_extract_file_strings = (\<lambda>buf. []),
      set_iter_order = rev\<rparr>"

definition sample_extractor :: DotnetFileFeatureExtractor where
  "sample_extractor = \<lparr>path = ''sample.exe'', pe = sample_pe\<rparr>"


section \<open>Architecture and operating system\<close>

text \<open>
  C1. \<^verbatim>\<open>extract_file_arch\<close> yields one architecture feature at address 0 whatever the
  flag and the header are: i386 when \<^verbatim>\<open>CLR_32BITREQUIRED\<close> is set and the optional header
  is the 32-bit one, amd64 when the flag is clear and the header is the 64-bit one, and
  \<^verbatim>\<open>any\<close> in the two other combinations (and for any other header value).
\<close>

theorem extract_file_arch_cases:
  "length (extract_file_arch p) = 1
   \<and> (CLR_32BITREQUIRED (Flags (net p)) \<and> PE_TYPE p = OPTIONAL_HEADER_MAGIC_PE
        \<longrightarrow> extract_file_arch p = [(Arch ARCH_I386, 0)])
   \<and> (\<not> CLR_32BITREQUIRED (Flags (net p)) \<and> PE_TYPE p = OPTIONAL_HEADER_MAGIC_PE_PLUS
        \<longrightarrow> extract_file_arch p = [(Arch ARCH_AMD64, 0)])
   \<and> (CLR_32BITREQUIRED (Flags (net p)) \<and> PE_TYPE p = OPTIONAL_HEADER_MAGIC_PE_PLUS
        \<longrightarrow> extract_file_arch p = [(Arch ARCH_ANY, 0)])
   \<and> (\<not> CLR_32BITREQUIRED (Flags (net p)) \<and> PE_TYPE p = OPTIONAL_HEADER_MAGIC_PE
        \<longrightarrow> extract_file_arch p = [(Arch ARCH_ANY, 0)])
   \<and> (PE_TYPE p \<noteq> OPTIONAL_HEADER_MAGIC_PE \<and> PE_TYPE p \<noteq> OPTIONAL_HEADER_MAGIC_PE_PLUS
        \<longrightarrow> extract_file_arch p = [(Arch ARCH_ANY, 0)])"
  by (simp add: extract_file_arch_def OPTIONAL_HEADER_MAGIC_PE_def
      OPTIONAL_HEADER_MAGIC_PE_PLUS_def)

theorem extract_file_arch_cases_witness:
  "(CLR_32BITREQUIRED (Flags (net sample_pe)) \<and> PE_TYPE sample_pe = OPTIONAL_HEADER_MAGIC_PE)
   \<and> extract_file_arch sample_pe = [(Arch ARCH_I386, 0)]
   \<and> extract_file_arch (sample_pe\<lparr>PE_TYPE := OPTIONAL_HEADER_MAGIC_PE_PLUS\<rparr>) = [(Arch ARCH_ANY, 0)]
   \<and> extract_file_arch (sample_pe\<lparr>PE_TYPE := 0\<rparr>) = [(Arch ARCH_ANY, 0)]
   \<and> extract_file_arch
        (sample_pe\<lparr>net := (net sample_pe)
           \<lparr>Flags := \<lparr>CLR_32BITREQUIRED = False, CLR_ILONLY = True\<rparr>\<rparr>\<rparr>)
        = [(Arch ARCH_ANY, 0)]
   \<and> extract_file_arch
        (sample_pe\<lparr>net := (net sample_pe)
           \<lparr>Flags := \<lparr>CLR_32BITREQUIRED = False, CLR_ILONLY = True\<rparr>\<rparr>,
           PE_TYPE := OPTIONAL_HEADER_MAGIC_PE_PLUS\<rparr>)
        = [(Arch ARCH_AMD64, 0)]"
  using extract_file_arch_cases [of sample_pe]
    extract_file_arch_cases [of "sample_pe\<lparr>PE_TYPE := OPTIONAL_HEADER_MAGIC_PE_PLUS\<rparr>"]
    extract_file_arch_cases [of "sample_pe\<lparr>PE_TYPE := 0\<rparr>"]
    extract_file_arch_cases [of "sample_pe\<lparr>net := (net sample_pe)
           \<lparr>Flags := \<lparr>CLR_32BITREQUIRED = False, CLR_ILONLY = True\<rparr>\<rparr>\<rparr>"]
    extract_file_arch_cases [of "sample_pe\<lparr>net := (net sample_pe)
           \<lparr>Flags := \<lparr>CLR_32BITREQUIRED = False, CLR_ILONLY = True\<rparr>\<rparr>,
           PE_TYPE := OPTIONAL_HEADER_MAGIC_PE_PLUS\<rparr>"]
  by (simp add: sample_pe_def OPTIONAL_HEADER_MAGIC_PE_def OPTIONAL_HEADER_MAGIC_PE_PLUS_def)

text \<open>
  C9. \<^verbatim>\<open>get_base_address\<close> is the constant 0, and the rule for the operating system
  yields one feature, \<^verbatim>\<open>OS(OS_ANY)\<close> at address 0; it is the only feature of kind \<^verbatim>\<open>OS\<close>
  among the global features of any binary.
\<close>

theorem os_and_base_address:
  "get_base_address self = 0
   \<and> extract_file_os = [(OS OS_ANY, 0)]
   \<and> filter (\<lambda>(feature, va). case feature of OS tag \<Rightarrow> True | _ \<Rightarrow> False)
         (extract_global_features p) = [(OS OS_ANY, 0)]"
  by (simp add: get_base_address_def extract_file_os_def extract_global_features_def
      GLOBAL_HANDLERS_def extract_file_arch_def)

section \<open>Mixed mode\<close>

text \<open>
  C6. The rule for mixed mode yields the characteristic \<^verbatim>\<open>mixed mode\<close> at address 0 when the
  IL-only flag is absent and nothing when it is set, and \<^verbatim>\<open>is_mixed_mode\<close> of the extractor
  is true in exactly the binaries for which the rule yields its feature.
\<close>

theorem mixed_mode_iff_not_il_only:
  "extract_file_mixed_mode_characteristic_features (pe self) =
     (if CLR_ILONLY (Flags (net (pe self))) then [] else [(Characteristic ''mixed mode'', 0)])
   \<and> is_mixed_mode self = (\<not> CLR_ILONLY (Flags (net (pe self))))
   \<and> is_mixed_mode self = (extract_file_mixed_mode_characteristic_features (pe self) \<noteq> [])"
  by (simp add: extract_file_mixed_mode_characteristic_features_def is_mixed_mode_def
      is_dotnet_mixed_mode_def)

section \<open>Operations below the level of the file\<close>

text \<open>
  C7. Each of the eight operations on functions, basic blocks and instructions raises
  \<^verbatim>\<open>NotImplementedError\<close>, for every extractor and every argument: the result is the
  error, never a value.
\<close>

theorem function_level_operations_raise:
  "get_functions self = Inl (NotImplementedError only_file_features)
   \<and> extract_function_features self f = Inl (NotImplementedError only_file_features)
   \<and> get_basic_blocks self f = Inl (NotImplementedError only_file_features)
   \<and> extract_basic_block_features self f bb = Inl (NotImplementedError only_file_features)
   \<and> get_instructions self f bb = Inl (NotImplementedError only_file_features)
   \<and> extract_insn_features self f bb insn = Inl (NotImplementedError only_file_features)
   \<and> is_library_function self va = Inl (NotImplementedError only_file_features)
   \<and> get_function_name self va = Inl (NotImplementedError only_file_features)"
  by (simp add: get_functions_def extract_function_features_def get_basic_blocks_def
      extract_basic_block_features_def get_instructions_def extract_insn_features_def
      is_library_function_def get_function_name_def)

section \<open>Namespaces\<close>

lemma set_fold_set_add:
  "set (fold (\<lambda>row. set_add (f row)) xs s) = set s \<union> f ` set xs"
  by (induction xs arbitrary: s) (auto simp: set_add_def)

lemma distinct_fold_set_add:
  "distinct s \<Longrightarrow> distinct (fold (\<lambda>row. set_add (f row)) xs s)"
  by (induction xs arbitrary: s) (auto simp: set_add_def)

lemma valid_iter_order_set: "valid_iter_order ord \<Longrightarrow> set (ord s) = set s"
  unfolding valid_iter_order_def by (metis mset_eq_setD)

lemma valid_iter_order_distinct: "valid_iter_order ord \<Longrightarrow> distinct (ord s) = distinct s"
  unfolding valid_iter_order_def by (metis mset_eq_imp_distinct_iff)

text \<open>
  C2. Whatever the order in which the set is iterated, the namespace rule yields no pair
  twice, never the empty namespace, and exactly the pairs of a \<^verbatim>\<open>Namespace\<close> feature with
  address 0 for the non-empty namespaces of the rows of the TypeDef and TypeRef tables.
\<close>

theorem namespace_features_once:
  assumes "valid_iter_order (set_iter_order e)"
  shows "distinct (extract_file_namespace_features e p)
    \<and> (Namespace [], va) \<notin> set (extract_file_namespace_features e p)
    \<and> set (extract_file_namespace_features e p) =
        (\<lambda>n. (Namespace n, 0)) `
          (TypeNamespace ` (set (iter_dotnet_table p ''TypeDef'')
                             \<union> set (iter_dotnet_table p ''TypeRef'')) - {''''})"
proof -
  let ?ns = "fold (\<lambda>row. set_add (TypeNamespace row)) (iter_dotnet_table p ''TypeRef'')
              (fold (\<lambda>row. set_add (TypeNamespace row)) (iter_dotnet_table p ''TypeDef'') [])"
  have out: "extract_file_namespace_features e p =
      map (\<lambda>n. (Namespace n, 0)) (set_iter_order e (set_discard '''' ?ns))"
    by (simp add: extract_file_namespace_features_def)
  have d: "distinct (set_discard '''' ?ns)"
    by (simp add: set_discard_def distinct_fold_set_add)
  have s: "set (set_discard '''' ?ns) =
      TypeNamespace ` (set (iter_dotnet_table p ''TypeDef'')
                        \<union> set (iter_dotnet_table p ''TypeRef'')) - {''''}"
    by (auto simp: set_discard_def set_fold_set_add)
  have inj: "inj_on (\<lambda>n. (Namespace n, 0::int)) A" for A
    by (simp add: inj_on_def)
  show ?thesis
    using assms d s
    by (simp add: out distinct_map inj valid_iter_order_set valid_iter_order_distinct image_iff)
qed

theorem namespace_features_once_witness:
  "valid_iter_order (set_iter_order sample_env)
   \<and> extract_file_namespace_features sample_env sample_pe =
       [(Namespace ''System.IO'', 0), (Namespace ''System'', 0)]
   \<and> distinct (extract_file_namespace_features sample_env sample_pe)
   \<and> set (extract_file_namespace_features sample_env sample_pe) =
        (\<lambda>n. (Namespace n, 0)) `
          (TypeNamespace ` (set (iter_dotnet_table sample_pe ''TypeDef'')
                             \<union> set (iter_dotnet_table sample_pe ''TypeRef'')) - {''''})"
proof -
  have v: "valid_iter_order (set_iter_order sample_env)"
    by (simp add: valid_iter_order_def sample_env_def)
  have "extract_file_namespace_features sample_env sample_pe =
       [(Namespace ''System.IO'', 0), (Namespace ''System'', 0)]"
    by (simp add: extract_file_namespace_features_def sample_pe_def sample_env_def
        sample_types_def iter_dotnet_table_def set_add_def set_discard_def)
  with v namespace_features_once [OF v, of sample_pe] show ?thesis by simp
qed

section \<open>Classes\<close>

lemma map_enumerate_row: "map (\<lambda>x. F (snd x)) (enumerate n xs) = map F xs"
  by (induction xs arbitrary: n) simp_all

lemma iter_dotnet_table_Some:
  "mdtables (net p) name = Some t \<Longrightarrow> iter_dotnet_table p name = rows t"
  by (simp add: iter_dotnet_table_def)

lemma iter_dotnet_table_None:
  "mdtables (net p) name = None \<Longrightarrow> iter_dotnet_table p name = []"
  by (simp add: iter_dotnet_table_def)

lemma length_extract_file_class_features:
  "length (extract_file_class_features p) =
     length (iter_dotnet_table p ''TypeDef'') + length (iter_dotnet_table p ''TypeRef'')"
  by (simp add: extract_file_class_features_def)

lemma extract_file_class_features_TypeDef:
  assumes "mdtables (net p) ''TypeDef'' = Some td" and "i < length (rows td)"
  shows "extract_file_class_features p ! i =
     (Class (DnClass_format_name (TypeNamespace (rows td ! i)) (TypeName (rows td ! i))),
      push_bit 24 (number td) OR (int i + 1))"
  using assms
  by (simp add: extract_file_class_features_def iter_dotnet_table_Some nth_append
      nth_enumerate_eq calculate_dotnet_token_value_def)

lemma extract_file_class_features_TypeRef:
  assumes "mdtables (net p) ''TypeRef'' = Some tr" and "j < length (rows tr)"
  shows "extract_file_class_features p ! (length (iter_dotnet_table p ''TypeDef'') + j) =
     (Class (DnClass_format_name (TypeNamespace (rows tr ! j)) (TypeName (rows tr ! j))),
      push_bit 24 (number tr) OR (int j + 1))"
  using assms
  by (simp add: extract_file_class_features_def iter_dotnet_table_Some nth_append
      nth_enumerate_eq calculate_dotnet_token_value_def)

lemma sample_TypeDef:
  "mdtables (net sample_pe) ''TypeDef'' = Some \<lparr>number = 2, rows =
         [\<lparr>TypeNamespace = '''', TypeName = ''Program''\<rparr>,
          \<lparr>TypeNamespace = ''System'', TypeName = ''Object''\<rparr>]\<rparr>"
  by (simp add: sample_pe_def sample_types_def)

lemma sample_TypeRef:
  "mdtables (net sample_pe) ''TypeRef'' = Some \<lparr>number = 1, rows =
         [\<lparr>TypeNamespace = ''System'', TypeName = ''Object''\<rparr>,
          \<lparr>TypeNamespace = ''System.IO'', TypeName = ''File''\<rparr>]\<rparr>"
  by (simp add: sample_pe_def sample_types_def)

text \<open>
  C3. The class rule yields one pair per row, the rows of TypeDef first. The pair of the
  row at position \<open>i\<close> (from 0) of a table is the formatted name of the row with the token
  \<^verbatim>\<open>(number << 24) | (i + 1)\<close>, where \<open>number\<close> is the number of the row's own table:
  TypeDef rows take the number of TypeDef, TypeRef rows the number of TypeRef, and the
  ordinal starts at 1 in each table.
\<close>

theorem class_features_tokens:
  "length (extract_file_class_features p) =
     length (iter_dotnet_table p ''TypeDef'') + length (iter_dotnet_table p ''TypeRef'')
   \<and> (\<forall>td i. mdtables (net p) ''TypeDef'' = Some td \<and> i < length (rows td) \<longrightarrow>
         extract_file_class_features p ! i =
           (Class (DnClass_format_name (TypeNamespace (rows td ! i)) (TypeName (rows td ! i))),
            push_bit 24 (number td) OR (int i + 1)))
   \<and> (\<forall>tr j. mdtables (net p) ''TypeRef'' = Some tr \<and> j < length (rows tr) \<longrightarrow>
         extract_file_class_features p ! (length (iter_dotnet_table p ''TypeDef'') + j) =
           (Class (DnClass_format_name (TypeNamespace (rows tr ! j)) (TypeName (rows tr ! j))),
            push_bit 24 (number tr) OR (int j + 1)))"
  using length_extract_file_class_features extract_file_class_features_TypeDef
    extract_file_class_features_TypeRef
  by blast

theorem class_features_tokens_witness:
  "mdtables (net sample_pe) ''TypeDef'' = Some \<lparr>number = 2, rows =
         [\<lparr>TypeNamespace = '''', TypeName = ''Program''\<rparr>,
          \<lparr>TypeNamespace = ''System'', TypeName = ''Object''\<rparr>]\<rparr>
   \<and> mdtables (net sample_pe) ''TypeRef'' = Some \<lparr>number = 1, rows =
         [\<lparr>TypeNamespace = ''System'', TypeName = ''Object''\<rparr>,
          \<lparr>TypeNamespace = ''System.IO'', TypeName = ''File''\<rparr>]\<rparr>
   \<and> length (extract_file_class_features sample_pe) = 4
   \<and> extract_file_class_features sample_pe ! 1 = (Class ''System.Object'', 0x02000002)
   \<and> extract_file_class_features sample_pe ! 3 = (Class ''System.IO.File'', 0x01000002)"
proof -
  let ?td = "\<lparr>number = 2, rows =
         [\<lparr>TypeNamespace = '''', TypeName = ''Program''\<rparr>,
          \<lparr>TypeNamespace = ''System'', TypeName = ''Object''\<rparr>]\<rparr>"
  let ?tr = "\<lparr>number = 1, rows =
         [\<lparr>TypeNamespace = ''System'', TypeName = ''Object''\<rparr>,
          \<lparr>TypeNamespace = ''System.IO'', TypeName = ''File''\<rparr>]\<rparr>"
  note t = class_features_tokens [of sample_pe]
  have a: "length (extract_file_class_features sample_pe) = 4"
    using t by (simp add: iter_dotnet_table_Some [OF sample_TypeDef]
        iter_dotnet_table_Some [OF sample_TypeRef])
  from t have "mdtables (net sample_pe) ''TypeDef'' = Some ?td \<and> 1 < length (rows ?td) \<longrightarrow>
      extract_file_class_features sample_pe ! 1 =
        (Class (DnClass_format_name (TypeNamespace (rows ?td ! 1)) (TypeName (rows ?td ! 1))),
         push_bit 24 (number ?td) OR (int 1 + 1))"
    by blast
  then have b: "extract_file_class_features sample_pe ! 1 = (Class ''System.Object'', 0x02000002)"
    using sample_TypeDef by (simp add: DnClass_format_name_def)
  from t have "mdtables (net sample_pe) ''TypeRef'' = Some ?tr \<and> 1 < length (rows ?tr) \<longrightarrow>
      extract_file_class_features sample_pe ! (length (iter_dotnet_table sample_pe ''TypeDef'') + 1) =
        (Class (DnClass_format_name (TypeNamespace (rows ?tr ! 1)) (TypeName (rows ?tr ! 1))),
         push_bit 24 (number ?tr) OR (int 1 + 1))"
    by blast
  then have c: "extract_file_class_features sample_pe ! 3 = (Class ''System.IO.File'', 0x01000002)"
    using sample_TypeRef
    by (simp add: DnClass_format_name_def iter_dotnet_table_Some [OF sample_TypeDef]
        numeral_3_eq_3)
  show ?thesis using a b c sample_TypeDef sample_TypeRef by simp
qed

text \<open>
  C4. Class features are not deduplicated. In the sample binary \<^verbatim>\<open>System.Object\<close> is a row
  of TypeDef and a row of TypeRef; both format to the same name and the rule yields the
  feature \<^verbatim>\<open>Class("System.Object")\<close> twice, once with each token.
\<close>

theorem class_features_duplicate_counterexample:
  "DnClass_format_name ''System'' ''Object'' = ''System.Object''
   \<and> extract_file_class_features sample_pe =
       [(Class ''Program'', 0x02000001), (Class ''System.Object'', 0x02000002),
        (Class ''System.Object'', 0x01000001), (Class ''System.IO.File'', 0x01000002)]
   \<and> \<not> distinct (map fst (extract_file_class_features sample_pe))"
  by (simp add: extract_file_class_features_def sample_pe_def sample_types_def
      iter_dotnet_table_def DnClass_format_name_def calculate_dotnet_token_value_def)

text \<open>
  C4, as the code has it: the features of the class rule are the formatted names of the
  rows of TypeDef followed by those of TypeRef, one feature per row, repetitions kept.
\<close>

theorem class_features_one_per_row:
  "map fst (extract_file_class_features p) =
     map (\<lambda>row. Class (DnClass_format_name (TypeNamespace row) (TypeName row)))
       (iter_dotnet_table p ''TypeDef'' @ iter_dotnet_table p ''TypeRef'')"
  by (simp add: extract_file_class_features_def case_prod_unfold comp_def
      map_enumerate_row [of "\<lambda>row. Class (DnClass_format_name (TypeNamespace row) (TypeName row))"])

section \<open>Imports\<close>

text \<open>
  C5. Every name variant that \<^verbatim>\<open>generate_symbols\<close> gives for the module and the symbol of
  an unmanaged import is yielded as an \<^verbatim>\<open>Import\<close> feature with the token of that import,
  by the import rule and so in the features of the file: all the variants of one import
  carry the same token.
\<close>

theorem unmanaged_variants_share_token:
  assumes "imp \<in> set (get_dotnet_unmanaged_imports e p)"
    and "name \<in> set (generate_symbols e (modulename imp) (methodname imp))"
  shows "(Import name, token imp) \<in> set (extract_file_import_names e p)
         \<and> (Import name, token imp) \<in> set (extract_file_features e p)"
proof -
  have "(Import name, token imp) \<in> set (extract_file_import_names e p)"
    using assms unfolding extract_file_import_names_def by force
  then show ?thesis
    by (simp add: extract_file_features_def FILE_HANDLERS_def)
qed

theorem unmanaged_variants_share_token_witness:
  "\<lparr>token = 0x06000002, methodname = ''CreateFile'', modulename = ''kernel32''\<rparr>
     \<in> set (get_dotnet_unmanaged_imports sample_env sample_pe)
   \<and> generate_symbols sample_env ''kernel32'' ''CreateFile''
       = [''CreateFile'', ''CreateFileA'', ''CreateFileW'']
   \<and> (Import ''CreateFile'', 0x06000002) \<in> set (extract_file_import_names sample_env sample_pe)
   \<and> (Import ''CreateFileA'', 0x06000002) \<in> set (extract_file_import_names sample_env sample_pe)
   \<and> (Import ''CreateFileW'', 0x06000002) \<in> set (extract_file_import_names sample_env sample_pe)"
proof -
  let ?imp = "\<lparr>token = 0x06000002, methodname = ''CreateFile'', modulename = ''kernel32''\<rparr>"
  have m: "?imp \<in> set (get_dotnet_unmanaged_imports sample_env sample_pe)"
    by (simp add: sample_env_def)
  have g: "generate_symbols sample_env ''kernel32'' ''CreateFile''
       = [''CreateFile'', ''CreateFileA'', ''CreateFileW'']"
    by (simp add: sample_env_def)
  show ?thesis
    using m g unmanaged_variants_share_token [OF m, of "''CreateFile''"]
      unmanaged_variants_share_token [OF m, of "''CreateFileA''"]
      unmanaged_variants_share_token [OF m, of "''CreateFileW''"]
    by simp
qed

section \<open>Determinism\<close>














section \<open>The metadata version string\<close>

lemma utf8_cons_Inl: "utf8_cons c (Inl err) = Inl err"
  by (simp add: utf8_cons_def)

lemma utf8_cons_Inr: "utf8_cons c (Inr cs) = Inr (c # cs)"
  by (simp add: utf8_cons_def)

lemma decode_utf8_ascii:
  "\<forall>b \<in> set bs. b < 0x80 \<Longrightarrow> decode_utf8 bs = Inr (map unat bs)"
  by (induction bs) (simp_all add: utf8_cons_Inr)

lemma utf8_lead_Some_less: "utf8_lead b = Some r \<Longrightarrow> b < 0xF5"
  by (auto simp: utf8_lead_def word_le_nat_alt word_less_nat_alt split: if_splits)

lemma decode_utf8_invalid:
  "\<exists>b \<in> set bs. 0xF5 \<le> b \<Longrightarrow> decode_utf8 bs = Inl UnicodeDecodeError"
proof (induction bs rule: decode_utf8.induct)
  case 1
  then show ?case by simp
next
  case (2 b bs)
  show ?case
  proof (cases "b < 0x80")
    case True
    with "2.prems" have "\<exists>c \<in> set bs. 0xF5 \<le> c"
      by (auto simp: word_le_nat_alt word_less_nat_alt)
    with "2.IH"(1) True show ?thesis by (simp add: utf8_cons_Inl)
  next
    case high: False
    show ?thesis
    proof (cases "utf8_lead b")
      case None
      with high show ?thesis by simp
    next
      case (Some r)
      obtain n lo hi v where r: "r = (n, lo, hi, v)" by (cases r)
      from Some have b: "b < 0xF5" by (rule utf8_lead_Some_less)
      with "2.prems" obtain c where c: "c \<in> set bs" "0xF5 \<le> c"
        by (auto simp: word_le_nat_alt word_less_nat_alt)
      show ?thesis
      proof (cases "length bs < n")
        case True
        with high Some r show ?thesis by simp
      next
        case long: False
        show ?thesis
        proof (cases "lo \<le> hd bs \<and> hd bs \<le> hi
                  \<and> (\<forall>c \<in> set (take n bs). 0x80 \<le> c \<and> c \<le> 0xBF)")
          case True
          have "c \<notin> set (take n bs)"
          proof
            assume "c \<in> set (take n bs)"
            with True have "c \<le> 0xBF" by simp
            with c(2) show False by (simp add: word_le_nat_alt)
          qed
          moreover from c(1) have "c \<in> set (take n bs @ drop n bs)" by simp
          ultimately have "c \<in> set (drop n bs)" by (simp del: append_take_drop_id)
          with c(2) have bad: "\<exists>c \<in> set (drop n bs). 0xF5 \<le> c" by blast
          have "decode_utf8 (drop n bs) = Inl UnicodeDecodeError"
            by (rule "2.IH"(2) [OF high Some, of n "(lo, hi, v)" lo "(hi, v)" hi v])
              (use r long True bad in simp_all)
          with high Some r long True show ?thesis by (simp add: utf8_cons_Inl)
        next
          case False
          with high Some r long show ?thesis by auto
        qed
      qed
    qed
  qed
qed

lemma mod_offset:
  fixes p k m :: nat
  assumes "p < k"
  shows "(m * k + p) mod k = p" "(m * k + p) div k = m"
  using assms by simp_all

lemma mod64_cont: "128 \<le> (n::nat) \<Longrightarrow> n \<le> 191 \<Longrightarrow> n mod 64 = n - 128"
proof -
  assume a: "128 \<le> n" "n \<le> 191"
  define p where "p = n - 128"
  from a have n: "n = 2 * 64 + p" and p: "p < 64" by (simp_all add: p_def)
  show ?thesis unfolding n using mod_offset(1) [OF p, of 2] by simp
qed

lemma mod32_lead: "194 \<le> (n::nat) \<Longrightarrow> n \<le> 223 \<Longrightarrow> n mod 32 = n - 192"
proof -
  assume a: "194 \<le> n" "n \<le> 223"
  define p where "p = n - 192"
  from a have n: "n = 6 * 32 + p" and p: "p < 32" by (simp_all add: p_def)
  show ?thesis unfolding n using mod_offset(1) [OF p, of 6] by simp
qed

lemma mod16_lead: "224 \<le> (n::nat) \<Longrightarrow> n \<le> 239 \<Longrightarrow> n mod 16 = n - 224"
proof -
  assume a: "224 \<le> n" "n \<le> 239"
  define p where "p = n - 224"
  from a have n: "n = 14 * 16 + p" and p: "p < 16" by (simp_all add: p_def)
  show ?thesis unfolding n using mod_offset(1) [OF p, of 14] by simp
qed

lemma mod8_lead: "240 \<le> (n::nat) \<Longrightarrow> n \<le> 244 \<Longrightarrow> n mod 8 = n - 240"
proof -
  assume a: "240 \<le> n" "n \<le> 244"
  define p where "p = n - 240"
  from a have n: "n = 30 * 8 + p" and p: "p < 8" by (simp_all add: p_def)
  show ?thesis unfolding n using mod_offset(1) [OF p, of 30] by simp
qed


lemma div_4096: "(n::nat) div 4096 = n div 64 div 64"
  by (simp add: div_mult2_eq [symmetric])

lemma div_262144: "(n::nat) div 262144 = n div 64 div 64 div 64"
  by (simp add: div_mult2_eq [symmetric])

lemma cp2:
  fixes x y :: nat
  assumes "194 \<le> x" "x \<le> 223" "128 \<le> y" "y \<le> 191"
  defines "cp \<equiv> x mod 32 * 64 + y mod 64"
  shows "128 \<le> cp" "cp < 2048" "192 + cp div 64 = x" "128 + cp mod 64 = y"
proof -
  define a p where "a = x - 192" and "p = y - 128"
  have a: "2 \<le> a" "a < 32" "x = 192 + a" and p: "p < 64" "y = 128 + p"
    using assms(1-4) by (simp_all add: a_def p_def)
  have cp: "cp = a * 64 + p"
    using assms(1-4) by (simp add: cp_def mod32_lead mod64_cont a_def p_def)
  show "128 \<le> cp" "cp < 2048" using a p unfolding cp by linarith+
  show "192 + cp div 64 = x" "128 + cp mod 64 = y"
    unfolding cp using a(3) p by (simp_all add: mod_offset)
qed

lemma cp3:
  fixes x y z :: nat
  assumes "224 \<le> x" "x \<le> 239" "128 \<le> y" "y \<le> 191" "128 \<le> z" "z \<le> 191"
    and lo: "x = 224 \<Longrightarrow> 160 \<le> y" and hi: "x = 237 \<Longrightarrow> y \<le> 159"
  defines "cp \<equiv> (x mod 16 * 64 + y mod 64) * 64 + z mod 64"
  shows "2048 \<le> cp" "cp < 65536" "\<not> (55296 \<le> cp \<and> cp < 57344)"
    "224 + cp div 4096 = x" "128 + cp div 64 mod 64 = y" "128 + cp mod 64 = z"
proof -
  define a p q where "a = x - 224" and "p = y - 128" and "q = z - 128"
  have a: "a < 16" "x = 224 + a" and p: "p < 64" "y = 128 + p" and q: "q < 64" "z = 128 + q"
    using assms(1-6) by (simp_all add: a_def p_def q_def)
  have cp: "cp = (a * 64 + p) * 64 + q"
    using assms(1-6) by (simp add: cp_def mod16_lead mod64_cont a_def p_def q_def)
  have cpx: "cp = a * 4096 + p * 64 + q"
    unfolding cp by (simp add: algebra_simps)
  have lo': "a = 0 \<Longrightarrow> 32 \<le> p" using lo a(2) p(2) by simp
  have hi': "a = 13 \<Longrightarrow> p \<le> 31" using hi a(2) p(2) by simp
  show "2048 \<le> cp"
  proof (cases "a = 0")
    case True
    with lo' show ?thesis unfolding cpx by simp
  next
    case False
    then have "4096 \<le> a * 4096" by simp
    then show ?thesis unfolding cpx by linarith
  qed
  show "cp < 65536" using a(1) p(1) q(1) unfolding cpx by linarith
  show "\<not> (55296 \<le> cp \<and> cp < 57344)"
  proof -
    consider "a \<le> 12" | "a = 13" | "14 \<le> a" by linarith
    then show ?thesis
    proof cases
      case 1
      then have "cp < 55296" using p(1) q(1) unfolding cpx by linarith
      then show ?thesis by simp
    next
      case 2
      with hi' have "p \<le> 31" by simp
      then have "cp < 55296" using 2 q(1) unfolding cpx by simp
      then show ?thesis by simp
    next
      case 3
      then have "57344 \<le> cp" unfolding cpx by linarith
      then show ?thesis by simp
    qed
  qed
  have d: "cp div 64 = a * 64 + p" "cp mod 64 = q"
    unfolding cp by (rule mod_offset(2) [OF q(1)], rule mod_offset(1) [OF q(1)])
  show "224 + cp div 4096 = x" "128 + cp div 64 mod 64 = y" "128 + cp mod 64 = z"
    using a(2) p q(2) by (simp_all add: div_4096 d mod_offset)
qed

lemma cp4:
  fixes x y z w :: nat
  assumes "240 \<le> x" "x \<le> 244" "128 \<le> y" "y \<le> 191" "128 \<le> z" "z \<le> 191"
    "128 \<le> w" "w \<le> 191"
    and lo: "x = 240 \<Longrightarrow> 144 \<le> y" and hi: "x = 244 \<Longrightarrow> y \<le> 143"
  defines "cp \<equiv> ((x mod 8 * 64 + y mod 64) * 64 + z mod 64) * 64 + w mod 64"
  shows "65536 \<le> cp" "cp < 1114112"
    "240 + cp div 262144 = x" "128 + cp div 4096 mod 64 = y"
    "128 + cp div 64 mod 64 = z" "128 + cp mod 64 = w"
proof -
  define a p q r where "a = x - 240" and "p = y - 128" and "q = z - 128" and "r = w - 128"
  have a: "a \<le> 4" "x = 240 + a" and p: "p < 64" "y = 128 + p" and q: "q < 64" "z = 128 + q"
    and r: "r < 64" "w = 128 + r"
    using assms(1-8) by (simp_all add: a_def p_def q_def r_def)
  have cp: "cp = ((a * 64 + p) * 64 + q) * 64 + r"
    using assms(1-8) by (simp add: cp_def mod8_lead mod64_cont a_def p_def q_def r_def)
  have cpx: "cp = a * 262144 + p * 4096 + q * 64 + r"
    unfolding cp by (simp add: algebra_simps)
  have lo': "a = 0 \<Longrightarrow> 16 \<le> p" using lo a(2) p(2) by simp
  have hi': "a = 4 \<Longrightarrow> p \<le> 15" using hi a(2) p(2) by simp
  show "65536 \<le> cp"
  proof (cases "a = 0")
    case True
    with lo' show ?thesis unfolding cpx by simp
  next
    case False
    then have "262144 \<le> a * 262144" by simp
    then show ?thesis unfolding cpx by linarith
  qed
  show "cp < 1114112"
  proof (cases "a = 4")
    case True
    with hi' have "p \<le> 15" by simp
    then show ?thesis using True q(1) r(1) unfolding cpx by simp
  next
    case False
    with a(1) have "a \<le> 3" by simp
    then show ?thesis using p(1) q(1) r(1) unfolding cpx by linarith
  qed
  have d: "cp div 64 = (a * 64 + p) * 64 + q" "cp mod 64 = r"
    unfolding cp by (rule mod_offset(2) [OF r(1)], rule mod_offset(1) [OF r(1)])
  have e: "cp div 64 div 64 = a * 64 + p" "cp div 64 mod 64 = q"
    unfolding d by (rule mod_offset(2) [OF q(1)], rule mod_offset(1) [OF q(1)])
  have f: "cp div 64 div 64 div 64 = a" "cp div 64 div 64 mod 64 = p"
    unfolding e by (rule mod_offset(2) [OF p(1)], rule mod_offset(1) [OF p(1)])
  show "240 + cp div 262144 = x" "128 + cp div 4096 mod 64 = y"
    "128 + cp div 64 mod 64 = z" "128 + cp mod 64 = w"
    using a(2) p(2) q(2) r(2) by (simp_all add: div_4096 div_262144 d(2) e(2) f)
qed

lemma en2:
  fixes c :: nat
  assumes "128 \<le> c" "c < 2048"
  shows "194 \<le> 192 + c div 64" "192 + c div 64 \<le> 223"
    "128 \<le> 128 + c mod 64" "128 + c mod 64 \<le> 191"
    "(192 + c div 64) mod 32 * 64 + (128 + c mod 64) mod 64 = c"
proof -
  have d: "2 \<le> c div 64" "c div 64 < 32"
    using assms by (simp_all add: less_eq_div_iff_mult_less_eq div_less_iff_less_mult)
  have m: "c mod 64 < 64" by simp
  show x: "194 \<le> 192 + c div 64" "192 + c div 64 \<le> 223" using d by simp_all
  show y: "128 \<le> 128 + c mod 64" "128 + c mod 64 \<le> 191" using m by simp_all
  show "(192 + c div 64) mod 32 * 64 + (128 + c mod 64) mod 64 = c"
    by (simp add: mod32_lead [OF x] mod64_cont [OF y])
qed

lemma en3:
  fixes c :: nat
  assumes "2048 \<le> c" "c < 65536" "\<not> (55296 \<le> c \<and> c < 57344)"
  shows "224 \<le> 224 + c div 4096" "224 + c div 4096 \<le> 239"
    "128 \<le> 128 + c div 64 mod 64" "128 + c div 64 mod 64 \<le> 191"
    "128 \<le> 128 + c mod 64" "128 + c mod 64 \<le> 191"
    "224 + c div 4096 = 224 \<Longrightarrow> 160 \<le> 128 + c div 64 mod 64"
    "224 + c div 4096 = 237 \<Longrightarrow> 128 + c div 64 mod 64 \<le> 159"
    "((224 + c div 4096) mod 16 * 64 + (128 + c div 64 mod 64) mod 64) * 64
       + (128 + c mod 64) mod 64 = c"
proof -
  define c1 where "c1 = c div 64"
  have c1: "32 \<le> c1" "c1 < 1024" "\<not> (864 \<le> c1 \<and> c1 < 896)"
    using assms
    by (simp_all add: c1_def less_eq_div_iff_mult_less_eq div_less_iff_less_mult)
  have c2: "c1 div 64 < 16"
    using c1(2) by (simp add: div_less_iff_less_mult)
  have r: "c1 = c1 div 64 * 64 + c1 mod 64" by simp
  have m: "c1 mod 64 < 64" "c mod 64 < 64" by simp_all
  show x: "224 \<le> 224 + c div 4096" "224 + c div 4096 \<le> 239"
    using c2 by (simp_all add: div_4096 c1_def)
  show y: "128 \<le> 128 + c div 64 mod 64" "128 + c div 64 mod 64 \<le> 191"
    using m(1) by (simp_all add: c1_def)
  show z: "128 \<le> 128 + c mod 64" "128 + c mod 64 \<le> 191"
    using m(2) by simp_all
  show "160 \<le> 128 + c div 64 mod 64" if "224 + c div 4096 = 224"
  proof -
    from that have "c1 div 64 = 0" by (simp add: div_4096 c1_def)
    with r have "c1 mod 64 = c1" by simp
    with c1(1) show ?thesis by (simp add: c1_def)
  qed
  show "128 + c div 64 mod 64 \<le> 159" if "224 + c div 4096 = 237"
  proof -
    from that have "c1 div 64 = 13" by (simp add: div_4096 c1_def)
    with r have e: "c1 = 832 + c1 mod 64" by simp
    then have "832 \<le> c1" by linarith
    moreover from e m(1) have "c1 < 896" by linarith
    ultimately have "c1 < 864" using c1(3) by linarith
    with e have "c1 mod 64 < 32" by linarith
    then show ?thesis by (simp add: c1_def)
  qed
  have mx: "(224 + c div 4096) mod 16 = c1 div 64"
    using mod16_lead [OF x] by (simp add: div_4096 c1_def)
  have my: "(128 + c div 64 mod 64) mod 64 = c1 mod 64"
    using mod64_cont [OF y] by (simp add: c1_def)
  have mz: "(128 + c mod 64) mod 64 = c mod 64"
    using mod64_cont [OF z] by simp
  have "((224 + c div 4096) mod 16 * 64 + (128 + c div 64 mod 64) mod 64) * 64
       + (128 + c mod 64) mod 64 = (c1 div 64 * 64 + c1 mod 64) * 64 + c mod 64"
    by (simp only: mx my mz)
  also have "\<dots> = c1 * 64 + c mod 64" by simp
  also have "\<dots> = c" by (simp add: c1_def)
  finally show "((224 + c div 4096) mod 16 * 64 + (128 + c div 64 mod 64) mod 64) * 64
       + (128 + c mod 64) mod 64 = c" .
qed

lemma en4:
  fixes c :: nat
  assumes "65536 \<le> c" "c < 1114112"
  shows "240 \<le> 240 + c div 262144" "240 + c div 262144 \<le> 244"
    "128 \<le> 128 + c div 4096 mod 64" "128 + c div 4096 mod 64 \<le> 191"
    "128 \<le> 128 + c div 64 mod 64" "128 + c div 64 mod 64 \<le> 191"
    "128 \<le> 128 + c mod 64" "128 + c mod 64 \<le> 191"
    "240 + c div 262144 = 240 \<Longrightarrow> 144 \<le> 128 + c div 4096 mod 64"
    "240 + c div 262144 = 244 \<Longrightarrow> 128 + c div 4096 mod 64 \<le> 143"
    "(((240 + c div 262144) mod 8 * 64 + (128 + c div 4096 mod 64) mod 64) * 64
       + (128 + c div 64 mod 64) mod 64) * 64 + (128 + c mod 64) mod 64 = c"
proof -
  define c1 c2 where "c1 = c div 64" and "c2 = c div 64 div 64"
  have c2: "16 \<le> c2" "c2 < 272"
    using assms
    by (simp_all add: c2_def less_eq_div_iff_mult_less_eq div_less_iff_less_mult)
  have c3: "c2 div 64 \<le> 4"
  proof -
    from c2(2) have "c2 div 64 < 5" by (simp add: div_less_iff_less_mult)
    then show ?thesis by simp
  qed
  have r: "c2 = c2 div 64 * 64 + c2 mod 64" by simp
  have m: "c2 mod 64 < 64" "c1 mod 64 < 64" "c mod 64 < 64" by simp_all
  show x: "240 \<le> 240 + c div 262144" "240 + c div 262144 \<le> 244"
    using c3 by (simp_all add: div_262144 c2_def)
  show y: "128 \<le> 128 + c div 4096 mod 64" "128 + c div 4096 mod 64 \<le> 191"
    using m(1) by (simp_all add: div_4096 c2_def)
  show z: "128 \<le> 128 + c div 64 mod 64" "128 + c div 64 mod 64 \<le> 191"
    using m(2) by (simp_all add: c1_def)
  show w: "128 \<le> 128 + c mod 64" "128 + c mod 64 \<le> 191"
    using m(3) by simp_all
  show "144 \<le> 128 + c div 4096 mod 64" if "240 + c div 262144 = 240"
  proof -
    from that have "c2 div 64 = 0" by (simp add: div_262144 c2_def)
    with r have "c2 mod 64 = c2" by simp
    with c2(1) show ?thesis by (simp add: div_4096 c2_def)
  qed
  show "128 + c div 4096 mod 64 \<le> 143" if "240 + c div 262144 = 244"
  proof -
    from that have "c2 div 64 = 4" by (simp add: div_262144 c2_def)
    with r have e: "c2 = 256 + c2 mod 64" by simp
    with c2(2) have "c2 mod 64 < 16" by linarith
    then show ?thesis by (simp add: div_4096 c2_def)
  qed
  have mx: "(240 + c div 262144) mod 8 = c2 div 64"
    using mod8_lead [OF x] by (simp add: div_262144 c2_def)
  have my: "(128 + c div 4096 mod 64) mod 64 = c2 mod 64"
    using mod64_cont [OF y] by (simp add: div_4096 c2_def)
  have mz: "(128 + c div 64 mod 64) mod 64 = c1 mod 64"
    using mod64_cont [OF z] by (simp add: c1_def)
  have mw: "(128 + c mod 64) mod 64 = c mod 64"
    using mod64_cont [OF w] by simp
  have "(((240 + c div 262144) mod 8 * 64 + (128 + c div 4096 mod 64) mod 64) * 64
       + (128 + c div 64 mod 64) mod 64) * 64 + (128 + c mod 64) mod 64
     = ((c2 div 64 * 64 + c2 mod 64) * 64 + c1 mod 64) * 64 + c mod 64"
    by (simp only: mx my mz mw)
  also have "\<dots> = (c2 * 64 + c1 mod 64) * 64 + c mod 64" by simp
  also have "\<dots> = c1 * 64 + c mod 64" by (simp add: c1_def c2_def)
  also have "\<dots> = c" by (simp add: c1_def)
  finally show "(((240 + c div 262144) mod 8 * 64 + (128 + c div 4096 mod 64) mod 64) * 64
       + (128 + c div 64 mod 64) mod 64) * 64 + (128 + c mod 64) mod 64 = c" .
qed

lemma unat_and_3F: "unat ((b::byte) AND 0x3F) = unat b mod 64"
proof -
  have "b AND 0x3F = take_bit 6 b" by (simp add: take_bit_eq_mask mask_eq_exp_minus_1)
  then show ?thesis by (simp add: take_bit_eq_mod unat_mod)
qed

lemma unat_and_1F: "unat ((b::byte) AND 0x1F) = unat b mod 32"
proof -
  have "b AND 0x1F = take_bit 5 b" by (simp add: take_bit_eq_mask mask_eq_exp_minus_1)
  then show ?thesis by (simp add: take_bit_eq_mod unat_mod)
qed

lemma unat_and_0F: "unat ((b::byte) AND 0x0F) = unat b mod 16"
proof -
  have "b AND 0x0F = take_bit 4 b" by (simp add: take_bit_eq_mask mask_eq_exp_minus_1)
  then show ?thesis by (simp add: take_bit_eq_mod unat_mod)
qed

lemma unat_and_07: "unat ((b::byte) AND 0x07) = unat b mod 8"
proof -
  have "b AND 0x07 = take_bit 3 b" by (simp add: take_bit_eq_mask mask_eq_exp_minus_1)
  then show ?thesis by (simp add: take_bit_eq_mod unat_mod)
qed

lemma unat_of_nat_byte: "n < 256 \<Longrightarrow> unat (of_nat n :: byte) = n"
  by (simp add: unat_of_nat)

lemma utf8_lead_unat:
  "utf8_lead b =
     (if 194 \<le> unat b \<and> unat b \<le> 223 then Some (1, 0x80, 0xBF, unat b mod 32)
      else if unat b = 224 then Some (2, 0xA0, 0xBF, unat b mod 16)
      else if unat b = 237 then Some (2, 0x80, 0x9F, unat b mod 16)
      else if 225 \<le> unat b \<and> unat b \<le> 239 then Some (2, 0x80, 0xBF, unat b mod 16)
      else if unat b = 240 then Some (3, 0x90, 0xBF, unat b mod 8)
      else if unat b = 244 then Some (3, 0x80, 0x8F, unat b mod 8)
      else if 241 \<le> unat b \<and> unat b \<le> 243 then Some (3, 0x80, 0xBF, unat b mod 8)
      else None)"
  by (simp add: utf8_lead_def word_le_nat_alt word_unat_eq_iff [of b]
      unat_and_1F unat_and_0F unat_and_07)

lemma decode2:
  assumes "194 \<le> unat b" "unat b \<le> 223" "128 \<le> unat c1" "unat c1 \<le> 191"
  shows "decode_utf8 (b # c1 # rest) =
     utf8_cons (unat b mod 32 * 64 + unat c1 mod 64) (decode_utf8 rest)"
  using assms
  by (simp add: utf8_lead_unat word_less_nat_alt word_le_nat_alt unat_and_3F)

lemma decode3:
  assumes "224 \<le> unat b" "unat b \<le> 239" "128 \<le> unat c1" "unat c1 \<le> 191"
    "128 \<le> unat c2" "unat c2 \<le> 191"
    "unat b = 224 \<Longrightarrow> 160 \<le> unat c1" "unat b = 237 \<Longrightarrow> unat c1 \<le> 159"
  shows "decode_utf8 (b # c1 # c2 # rest) =
     utf8_cons ((unat b mod 16 * 64 + unat c1 mod 64) * 64 + unat c2 mod 64)
       (decode_utf8 rest)"
  using assms
  by (simp add: utf8_lead_unat word_less_nat_alt word_le_nat_alt unat_and_3F)

lemma decode4:
  assumes "240 \<le> unat b" "unat b \<le> 244" "128 \<le> unat c1" "unat c1 \<le> 191"
    "128 \<le> unat c2" "unat c2 \<le> 191" "128 \<le> unat c3" "unat c3 \<le> 191"
    "unat b = 240 \<Longrightarrow> 144 \<le> unat c1" "unat b = 244 \<Longrightarrow> unat c1 \<le> 143"
  shows "decode_utf8 (b # c1 # c2 # c3 # rest) =
     utf8_cons (((unat b mod 8 * 64 + unat c1 mod 64) * 64 + unat c2 mod 64) * 64
                  + unat c3 mod 64)
       (decode_utf8 rest)"
  using assms
  by (simp add: utf8_lead_unat word_less_nat_alt word_le_nat_alt unat_and_3F)

lemma decode_encode_char:
  assumes "is_scalar_value c"
  shows "decode_utf8 (encode_char c @ rest) = utf8_cons c (decode_utf8 rest)"
proof -
  consider (one) "c < 128" | (two) "128 \<le> c" "c < 2048"
    | (three) "2048 \<le> c" "c < 65536" | (four) "65536 \<le> c"
    by linarith
  then show ?thesis
  proof cases
    case one
    then show ?thesis
      by (simp add: encode_char_def word_less_nat_alt unat_of_nat_byte)
  next
    case two
    note e = en2 [OF two]
    let ?b = "of_nat (192 + c div 64) :: byte" and ?c1 = "of_nat (128 + c mod 64) :: byte"
    have u: "unat ?b = 192 + c div 64" "unat ?c1 = 128 + c mod 64"
      by (rule unat_of_nat_byte, use e(2) in linarith)
        (rule unat_of_nat_byte, use e(4) in linarith)
    have enc: "encode_char c = [?b, ?c1]"
      using two by (simp add: encode_char_def)
    have dec: "decode_utf8 (?b # ?c1 # rest) =
        utf8_cons (unat ?b mod 32 * 64 + unat ?c1 mod 64) (decode_utf8 rest)"
      by (rule decode2) (simp_all only: u e)
    show ?thesis
      by (simp only: enc append_Cons append_Nil dec u e(5))
  next
    case three
    from assms three have ns: "\<not> (55296 \<le> c \<and> c < 57344)"
      by (auto simp: is_scalar_value_def)
    note e = en3 [OF three ns]
    let ?b = "of_nat (224 + c div 4096) :: byte"
      and ?c1 = "of_nat (128 + c div 64 mod 64) :: byte"
      and ?c2 = "of_nat (128 + c mod 64) :: byte"
    have u: "unat ?b = 224 + c div 4096" "unat ?c1 = 128 + c div 64 mod 64"
      "unat ?c2 = 128 + c mod 64"
      by (rule unat_of_nat_byte, use e(2) in linarith)
        (rule unat_of_nat_byte, use e(4) in linarith,
         rule unat_of_nat_byte, use e(6) in linarith)
    have enc: "encode_char c = [?b, ?c1, ?c2]"
      using three by (simp add: encode_char_def)
    have dec: "decode_utf8 (?b # ?c1 # ?c2 # rest) =
        utf8_cons ((unat ?b mod 16 * 64 + unat ?c1 mod 64) * 64 + unat ?c2 mod 64)
          (decode_utf8 rest)"
      by (rule decode3) (simp_all only: u e)
    show ?thesis
      by (simp only: enc append_Cons append_Nil dec u e(9))
  next
    case four
    from assms four have lt: "c < 1114112"
      by (auto simp: is_scalar_value_def)
    note e = en4 [OF four lt]
    let ?b = "of_nat (240 + c div 262144) :: byte"
      and ?c1 = "of_nat (128 + c div 4096 mod 64) :: byte"
      and ?c2 = "of_nat (128 + c div 64 mod 64) :: byte"
      and ?c3 = "of_nat (128 + c mod 64) :: byte"
    have u: "unat ?b = 240 + c div 262144" "unat ?c1 = 128 + c div 4096 mod 64"
      "unat ?c2 = 128 + c div 64 mod 64" "unat ?c3 = 128 + c mod 64"
      by (rule unat_of_nat_byte, use e(2) in linarith)
        (rule unat_of_nat_byte, use e(4) in linarith,
         rule unat_of_nat_byte, use e(6) in linarith,
         rule unat_of_nat_byte, use e(8) in linarith)
    have enc: "encode_char c = [?b, ?c1, ?c2, ?c3]"
      using four by (simp add: encode_char_def)
    have dec: "decode_utf8 (?b # ?c1 # ?c2 # ?c3 # rest) =
        utf8_cons (((unat ?b mod 8 * 64 + unat ?c1 mod 64) * 64 + unat ?c2 mod 64) * 64
                     + unat ?c3 mod 64)
          (decode_utf8 rest)"
      by (rule decode4) (simp_all only: u e)
    show ?thesis
      by (simp only: enc append_Cons append_Nil dec u e(11))
  qed
qed

lemma decode_encode_utf8:
  "list_all is_scalar_value s \<Longrightarrow> decode_utf8 (encode_utf8 s) = Inr s"
proof (induction s)
  case Nil
  then show ?case by (simp add: encode_utf8_def)
next
  case (Cons c s)
  then have "decode_utf8 (encode_utf8 s) = Inr s" and "is_scalar_value c" by simp_all
  then show ?case
    using decode_encode_char [of c "encode_utf8 s"]
    by (simp add: encode_utf8_def utf8_cons_Inr)
qed

lemma of_nat_unat_byte: "of_nat (unat (b::byte)) = b"
  by simp

lemma encode2:
  assumes "194 \<le> unat b" "unat b \<le> 223" "128 \<le> unat c1" "unat c1 \<le> 191"
  shows "is_scalar_value (unat b mod 32 * 64 + unat c1 mod 64)
    \<and> encode_char (unat b mod 32 * 64 + unat c1 mod 64) = [b, c1]"
proof -
  let ?cp = "unat b mod 32 * 64 + unat c1 mod 64"
  note e = cp2 [OF assms]
  from e(1) have n: "\<not> ?cp < 128" by linarith
  have "encode_char ?cp = [of_nat (192 + ?cp div 64), of_nat (128 + ?cp mod 64)]"
    by (simp only: encode_char_def n e(2) if_False if_True)
  then have "encode_char ?cp = [b, c1]"
    by (simp only: e(3,4) of_nat_unat_byte)
  moreover from e(2) have "is_scalar_value ?cp"
    by (simp add: is_scalar_value_def)
  ultimately show ?thesis by simp
qed

lemma encode3:
  assumes "224 \<le> unat b" "unat b \<le> 239" "128 \<le> unat c1" "unat c1 \<le> 191"
    "128 \<le> unat c2" "unat c2 \<le> 191"
    "unat b = 224 \<Longrightarrow> 160 \<le> unat c1" "unat b = 237 \<Longrightarrow> unat c1 \<le> 159"
  shows "is_scalar_value ((unat b mod 16 * 64 + unat c1 mod 64) * 64 + unat c2 mod 64)
    \<and> encode_char ((unat b mod 16 * 64 + unat c1 mod 64) * 64 + unat c2 mod 64)
        = [b, c1, c2]"
proof -
  let ?cp = "(unat b mod 16 * 64 + unat c1 mod 64) * 64 + unat c2 mod 64"
  note e = cp3 [OF assms]
  from e(1) have n: "\<not> ?cp < 128" "\<not> ?cp < 2048" by linarith+
  have "encode_char ?cp =
      [of_nat (224 + ?cp div 4096), of_nat (128 + ?cp div 64 mod 64), of_nat (128 + ?cp mod 64)]"
    by (simp only: encode_char_def n e(2) if_False if_True)
  then have "encode_char ?cp = [b, c1, c2]"
    by (simp only: e(4,5,6) of_nat_unat_byte)
  moreover from e(2,3) have "is_scalar_value ?cp"
    unfolding is_scalar_value_def by linarith
  ultimately show ?thesis by simp
qed

lemma encode4:
  assumes "240 \<le> unat b" "unat b \<le> 244" "128 \<le> unat c1" "unat c1 \<le> 191"
    "128 \<le> unat c2" "unat c2 \<le> 191" "128 \<le> unat c3" "unat c3 \<le> 191"
    "unat b = 240 \<Longrightarrow> 144 \<le> unat c1" "unat b = 244 \<Longrightarrow> unat c1 \<le> 143"
  shows "is_scalar_value (((unat b mod 8 * 64 + unat c1 mod 64) * 64 + unat c2 mod 64) * 64
                            + unat c3 mod 64)
    \<and> encode_char (((unat b mod 8 * 64 + unat c1 mod 64) * 64 + unat c2 mod 64) * 64
                     + unat c3 mod 64)
        = [b, c1, c2, c3]"
proof -
  let ?cp = "((unat b mod 8 * 64 + unat c1 mod 64) * 64 + unat c2 mod 64) * 64 + unat c3 mod 64"
  note e = cp4 [OF assms]
  from e(1) have n: "\<not> ?cp < 128" "\<not> ?cp < 2048" "\<not> ?cp < 65536" by linarith+
  have "encode_char ?cp =
      [of_nat (240 + ?cp div 262144), of_nat (128 + ?cp div 4096 mod 64),
       of_nat (128 + ?cp div 64 mod 64), of_nat (128 + ?cp mod 64)]"
    by (simp only: encode_char_def n if_False if_True)
  then have "encode_char ?cp = [b, c1, c2, c3]"
    by (simp only: e(3,4,5,6) of_nat_unat_byte)
  moreover from e(1,2) have "is_scalar_value ?cp"
    unfolding is_scalar_value_def by linarith
  ultimately show ?thesis by simp
qed

lemma utf8_cons_eq_Inr:
  "utf8_cons c r = Inr s \<longleftrightarrow> (\<exists>s'. r = Inr s' \<and> s = c # s')"
  by (cases r) (auto simp: utf8_cons_def)

lemma decode_step_sound:
  assumes lead: "utf8_lead b = Some (n, lo, hi, v)"
    and long: "\<not> length bs < n"
    and ok: "lo \<le> hd bs \<and> hd bs \<le> hi \<and> (\<forall>c \<in> set (take n bs). 0x80 \<le> c \<and> c \<le> 0xBF)"
  shows "is_scalar_value (foldl (\<lambda>a c. a * 64 + unat (c AND 0x3F)) v (take n bs))
    \<and> encode_char (foldl (\<lambda>a c. a * 64 + unat (c AND 0x3F)) v (take n bs)) = b # take n bs"
proof -
  from lead consider
      (two) "194 \<le> unat b" "unat b \<le> 223" "n = 1" "v = unat b mod 32"
    | (three) "224 \<le> unat b" "unat b \<le> 239" "n = 2" "v = unat b mod 16"
        "unat b = 224 \<longrightarrow> lo = 0xA0" "unat b = 237 \<longrightarrow> hi = 0x9F"
    | (four) "240 \<le> unat b" "unat b \<le> 244" "n = 3" "v = unat b mod 8"
        "unat b = 240 \<longrightarrow> lo = 0x90" "unat b = 244 \<longrightarrow> hi = 0x8F"
    unfolding utf8_lead_unat by (auto split: if_splits)
  then show ?thesis
  proof cases
    case two
    with long obtain c1 rest where bs: "bs = c1 # rest"
      by (cases bs) auto
    from ok have "128 \<le> unat c1" "unat c1 \<le> 191"
      by (simp_all add: bs two(3) word_le_nat_alt)
    from encode2 [OF two(1,2) this] show ?thesis
      by (simp add: bs two(3,4) unat_and_3F)
  next
    case three
    with long obtain c1 c2 rest where bs: "bs = c1 # c2 # rest"
      by (cases bs; cases "tl bs") auto
    from ok have c: "128 \<le> unat c1" "unat c1 \<le> 191" "128 \<le> unat c2" "unat c2 \<le> 191"
      and h: "lo \<le> c1" "c1 \<le> hi"
      by (simp_all add: bs three(3) word_le_nat_alt)
    have lo: "160 \<le> unat c1" if "unat b = 224"
      using that three(5) h(1) by (simp add: word_le_nat_alt)
    have hi: "unat c1 \<le> 159" if "unat b = 237"
      using that three(6) h(2) by (simp add: word_le_nat_alt)
    from encode3 [OF three(1,2) c lo hi] show ?thesis
      by (simp add: bs three(3,4) unat_and_3F)
  next
    case four
    with long obtain c1 c2 c3 rest where bs: "bs = c1 # c2 # c3 # rest"
      by (cases bs; cases "tl bs"; cases "tl (tl bs)") auto
    from ok have c: "128 \<le> unat c1" "unat c1 \<le> 191" "128 \<le> unat c2" "unat c2 \<le> 191"
        "128 \<le> unat c3" "unat c3 \<le> 191"
      and h: "lo \<le> c1" "c1 \<le> hi"
      by (simp_all add: bs four(3) word_le_nat_alt)
    have lo: "144 \<le> unat c1" if "unat b = 240"
      using that four(5) h(1) by (simp add: word_le_nat_alt)
    have hi: "unat c1 \<le> 143" if "unat b = 244"
      using that four(6) h(2) by (simp add: word_le_nat_alt)
    from encode4 [OF four(1,2) c lo hi] show ?thesis
      by (simp add: bs four(3,4) unat_and_3F)
  qed
qed

lemma decode_utf8_sound:
  "decode_utf8 bs = Inr s \<Longrightarrow> list_all is_scalar_value s \<and> encode_utf8 s = bs"
proof (induction bs arbitrary: s rule: decode_utf8.induct)
  case 1
  then show ?case by (simp add: encode_utf8_def)
next
  case (2 b bs)
  show ?case
  proof (cases "b < 0x80")
    case True
    with "2.prems" obtain s' where s': "decode_utf8 bs = Inr s'" "s = unat b # s'"
      by (auto simp: utf8_cons_eq_Inr)
    from "2.IH"(1) [OF True s'(1)] have ih: "list_all is_scalar_value s'" "encode_utf8 s' = bs"
      by simp_all
    from True have u: "unat b < 128" by (simp add: word_less_nat_alt)
    then have "is_scalar_value (unat b)" "encode_char (unat b) = [b]"
      by (simp_all add: is_scalar_value_def encode_char_def)
    with ih s'(2) show ?thesis by (simp add: encode_utf8_def)
  next
    case high: False
    show ?thesis
    proof (cases "utf8_lead b")
      case None
      with high "2.prems" show ?thesis by simp
    next
      case (Some r)
      obtain n lo hi v where r: "r = (n, lo, hi, v)" by (cases r)
      let ?ok = "lo \<le> hd bs \<and> hd bs \<le> hi \<and> (\<forall>c \<in> set (take n bs). 0x80 \<le> c \<and> c \<le> 0xBF)"
      let ?cp = "foldl (\<lambda>a c. a * 64 + unat (c AND 0x3F)) v (take n bs)"
      have long: "\<not> length bs < n"
        using "2.prems" high Some r by (auto split: if_splits)
      have ok: ?ok
        using "2.prems" high Some r long by (auto split: if_splits)
      have "utf8_cons ?cp (decode_utf8 (drop n bs)) = Inr s"
        using "2.prems" high Some r long ok by simp
      then obtain s' where s': "decode_utf8 (drop n bs) = Inr s'" "s = ?cp # s'"
        by (auto simp: utf8_cons_eq_Inr)
      have ih: "list_all is_scalar_value s' \<and> encode_utf8 s' = drop n bs"
        by (rule "2.IH"(2) [OF high Some, of n "(lo, hi, v)" lo "(hi, v)" hi v])
          (use r long ok s'(1) in simp_all)
      from decode_step_sound [OF Some [unfolded r] long ok]
      have st: "is_scalar_value ?cp" "encode_char ?cp = b # take n bs" by simp_all
      have "encode_utf8 s = (b # take n bs) @ drop n bs"
        using ih st(2) s'(2) by (simp add: encode_utf8_def)
      then show ?thesis using ih st(1) s'(2) by simp
    qed
  qed
qed

lemma decode_utf8_Inl: "decode_utf8 bs = Inl err \<Longrightarrow> err = UnicodeDecodeError"
proof (induction bs rule: decode_utf8.induct)
  case 1
  then show ?case by simp
next
  case (2 b bs)
  then show ?case
    by (auto simp: utf8_cons_def split: if_splits option.splits sum.splits)
qed

lemma decode_utf8_Inr_iff:
  "decode_utf8 bs = Inr s \<longleftrightarrow> list_all is_scalar_value s \<and> encode_utf8 s = bs"
  using decode_utf8_sound [of bs s] decode_encode_utf8 [of s] by auto

lemma decode_utf8_Inl_iff:
  "decode_utf8 bs = Inl UnicodeDecodeError
     \<longleftrightarrow> (\<nexists>s. list_all is_scalar_value s \<and> encode_utf8 s = bs)"
proof
  assume "decode_utf8 bs = Inl UnicodeDecodeError"
  then show "\<nexists>s. list_all is_scalar_value s \<and> encode_utf8 s = bs"
    by (auto simp: decode_utf8_Inr_iff [symmetric])
next
  assume none: "\<nexists>s. list_all is_scalar_value s \<and> encode_utf8 s = bs"
  show "decode_utf8 bs = Inl UnicodeDecodeError"
  proof (cases "decode_utf8 bs")
    case (Inl err)
    then show ?thesis by (simp add: decode_utf8_Inl)
  next
    case (Inr s)
    then have "list_all is_scalar_value s \<and> encode_utf8 s = bs"
      by (simp add: decode_utf8_Inr_iff)
    with none show ?thesis by blast
  qed
qed

lemma decode_utf8_examples:
  "decode_utf8 [0xE2, 0x82, 0xAC, 0xF0, 0x9F, 0x98, 0x80, 0xC3, 0xA9] = Inr [8364, 128512, 233]"
  "decode_utf8 [0xED, 0xA0, 0x80] = Inl UnicodeDecodeError"
  "decode_utf8 [0xC0, 0x80] = Inl UnicodeDecodeError"
  "decode_utf8 [0xE2, 0x82] = Inl UnicodeDecodeError"
  "decode_utf8 [0x76, 0x80] = Inl UnicodeDecodeError"
  by (simp_all add: utf8_lead_def utf8_cons_def)

text \<open>
  C8. A version string that is not UTF-8 is not passed through: in the sample extractor
  with the version bytes \<^verbatim>\<open>v4\xff\x00\<close>, \<^verbatim>\<open>get_meta_version_string\<close> raises
  \<^verbatim>\<open>UnicodeDecodeError\<close>.
\<close>

theorem get_meta_version_string_counterexample:
  "get_meta_version_string
     (sample_extractor\<lparr>pe := sample_pe\<lparr>net := (net sample_pe)
        \<lparr>metadata_Version := [0x76, 0x34, 0xFF, 0x00]\<rparr>\<rparr>\<rparr>)
   = Inl UnicodeDecodeError"
  by (simp add: get_meta_version_string_def sample_extractor_def sample_pe_def rstrip_nul_def
      utf8_lead_def utf8_cons_def)

text \<open>
  C8, as the code has it: the trailing zero bytes are removed and the rest is decoded
  strictly. The call returns the string \<open>s\<close> exactly when the remaining bytes are the
  UTF-8 encoding of \<open>s\<close>, a sequence of Unicode scalar values, and it raises
  \<^verbatim>\<open>UnicodeDecodeError\<close> exactly when the remaining bytes are the UTF-8 encoding of no
  string: every version string that is not UTF-8 raises, and none gives an empty or
  best-effort value.
\<close>

theorem get_meta_version_string_strict:
  "(get_meta_version_string self = Inr s
      \<longleftrightarrow> list_all is_scalar_value s
          \<and> encode_utf8 s = rstrip_nul (metadata_Version (net (pe self))))
   \<and> (get_meta_version_string self = Inl UnicodeDecodeError
      \<longleftrightarrow> (\<nexists>s'. list_all is_scalar_value s'
                 \<and> encode_utf8 s' = rstrip_nul (metadata_Version (net (pe self)))))"
  by (simp only: get_meta_version_string_def decode_utf8_Inr_iff decode_utf8_Inl_iff)

theorem get_meta_version_string_strict_witness:
  "rstrip_nul (metadata_Version (net (pe sample_extractor))) = [0x76, 0x34, 0x2E, 0x30]
   \<and> list_all is_scalar_value [118, 52, 46, 48]
   \<and> encode_utf8 [118, 52, 46, 48] = [0x76, 0x34, 0x2E, 0x30]
   \<and> get_meta_version_string sample_extractor = Inr [118, 52, 46, 48]
   \<and> get_meta_version_string
       (sample_extractor\<lparr>pe := sample_pe\<lparr>net := (net sample_pe)
          \<lparr>metadata_Version := [0x76, 0x80, 0x00]\<rparr>\<rparr>\<rparr>)
     = Inl UnicodeDecodeError
   \<and> (\<nexists>s'. list_all is_scalar_value s' \<and> encode_utf8 s' = [0x76, 0x80])"
proof -
  let ?bad = "sample_extractor\<lparr>pe := sample_pe\<lparr>net := (net sample_pe)
          \<lparr>metadata_Version := [0x76, 0x80, 0x00]\<rparr>\<rparr>\<rparr>"
  have v: "rstrip_nul (metadata_Version (net (pe sample_extractor))) = [0x76, 0x34, 0x2E, 0x30]"
    by (simp add: sample_extractor_def sample_pe_def rstrip_nul_def)
  have w: "rstrip_nul (metadata_Version (net (pe ?bad))) = [0x76, 0x80]"
    by (simp add: rstrip_nul_def)
  have s: "list_all is_scalar_value [118, 52, 46, 48]"
    by (simp add: is_scalar_value_def)
  have e: "encode_utf8 [118, 52, 46, 48] = [0x76, 0x34, 0x2E, 0x30]"
    by (simp add: encode_utf8_def encode_char_def)
  have b: "get_meta_version_string ?bad = Inl UnicodeDecodeError"
    by (simp add: get_meta_version_string_def sample_extractor_def sample_pe_def rstrip_nul_def
        utf8_lead_def utf8_cons_def)
  have "get_meta_version_string sample_extractor = Inr [118, 52, 46, 48]"
    using get_meta_version_string_strict [of sample_extractor "[118, 52, 46, 48]"] v s e
    by simp
  moreover have "\<nexists>s'. list_all is_scalar_value s' \<and> encode_utf8 s' = [0x76, 0x80]"
    using get_meta_version_string_strict [of ?bad] b w by simp
  ultimately show ?thesis using v s e b by simp
qed

end
